theory Spec2Isabelle
  imports Main "HOL-Library.Sublist"
begin

section \<open>Python values used by \<open>lambda_function.py\<close>\<close>

text \<open>
  A Python \<open>str\<close> is a sequence of Unicode code points and a \<open>bytes\<close> object a sequence
  of octets; both are lists of naturals here, so that \<open>len\<close> is \<open>length\<close>. A literal of
  the source is written \<open>lit ''...''\<close>.
\<close>

type_synonym str = "nat list"
type_synonym bytes = "nat list"

definition lit :: "string \<Rightarrow> str" where
  "lit s = map of_char s"

text \<open>The exceptions that the modelled code can raise or names in an \<open>except\<close> clause.\<close>

datatype error =
    IndexError
  | AttributeError
  | TypeError
  | ValueError
  | ClientError
  | RequestException
  | BotoCoreError

subsection \<open>\<open>str.find\<close>, \<open>str.split\<close> and indexing\<close>

text \<open>\<open>s.find(sep)\<close>: the lowest index at which \<open>sep\<close> occurs in \<open>s\<close>, if any.\<close>

primrec str_find :: "'a list \<Rightarrow> 'a list \<Rightarrow> nat option" where
  "str_find [] sep = (if sep = [] then Some 0 else None)"
| "str_find (c # cs) sep =
     (if prefix sep (c # cs) then Some 0 else map_option Suc (str_find cs sep))"

text \<open>
  The splitting loop of \<open>s.split(sep, maxsplit)\<close>: at most \<open>maxcount\<close> cuts, each at the
  leftmost occurrence of \<open>sep\<close> in what is left; the rest is the last piece.
\<close>

fun split_count :: "nat \<Rightarrow> 'a list \<Rightarrow> 'a list \<Rightarrow> 'a list list" where
  "split_count 0 s sep = [s]"
| "split_count (Suc n) s sep =
     (case str_find s sep of
        None \<Rightarrow> [s]
      | Some i \<Rightarrow> take i s # split_count n (drop (i + length sep) s) sep)"

text \<open>
  \<open>s.split(sep, maxsplit)\<close>. An empty separator raises \<open>ValueError\<close>. A negative
  \<open>maxsplit\<close> (the default is \<open>-1\<close>) means no limit: the interpreter then counts down
  from the largest size a string can have; every cut consumes at least one character, so
  \<open>len(s)\<close> cuts are as good as any larger number (lemma \<open>split_count_enough\<close> below).
\<close>

definition str_split :: "'a list \<Rightarrow> 'a list \<Rightarrow> int \<Rightarrow> error + 'a list list" where
  "str_split s sep maxsplit =
     (if sep = [] then Inl ValueError
      else Inr (split_count (if maxsplit < 0 then length s else nat maxsplit) s sep))"

text \<open>\<open>xs[i]\<close> for a literal index \<open>i \<ge> 0\<close>: \<open>IndexError\<close> when out of range.\<close>

definition getitem :: "'a list \<Rightarrow> nat \<Rightarrow> error + 'a" where
  "getitem xs i = (if i < length xs then Inr (xs ! i) else Inl IndexError)"

subsection \<open>\<open>str.strip\<close>\<close>

text \<open>
  \<open>s.strip()\<close> removes leading and trailing white space, which for a \<open>str\<close> is the set of
  code points for which \<open>str.isspace\<close> holds.
\<close>

definition isspace :: "nat \<Rightarrow> bool" where
  "isspace c \<longleftrightarrow>
     (0x09 \<le> c \<and> c \<le> 0x0D) \<or> (0x1C \<le> c \<and> c \<le> 0x20) \<or> c = 0x85 \<or> c = 0xA0 \<or>
     c = 0x1680 \<or> (0x2000 \<le> c \<and> c \<le> 0x200A) \<or> c = 0x2028 \<or> c = 0x2029 \<or>
     c = 0x202F \<or> c = 0x205F \<or> c = 0x3000"

definition str_strip :: "str \<Rightarrow> str" where
  "str_strip s = rev (dropWhile isspace (rev (dropWhile isspace s)))"

subsection \<open>\<open>urllib.parse.unquote\<close>\<close>

text \<open>
  The library function \<open>unquote(string)\<close> with its defaults \<open>encoding='utf-8'\<close> and
  \<open>errors='replace'\<close>, as the library defines it: a string without \<open>%\<close> is returned as
  it is; otherwise every maximal run of ASCII characters is turned into bytes, with each
  \<open>%XX\<close> (two hexadecimal digits) replaced by the byte it names and every other \<open>%\<close> left
  alone, and the bytes are decoded as UTF-8, an undecodable part giving U+FFFD. Non-ASCII
  characters are copied.
\<close>

definition hexdig :: "nat \<Rightarrow> nat option" where
  "hexdig c =
     (if 0x30 \<le> c \<and> c \<le> 0x39 then Some (c - 0x30)
      else if 0x41 \<le> c \<and> c \<le> 0x46 then Some (c - 0x37)
      else if 0x61 \<le> c \<and> c \<le> 0x66 then Some (c - 0x57)
      else None)"

text \<open>One piece of the split at \<open>%\<close>, other than the first.\<close>

fun unquote_item :: "bytes \<Rightarrow> bytes" where
  "unquote_item (a # b # rest) =
     (case (hexdig a, hexdig b) of
        (Some h, Some l) \<Rightarrow> (16 * h + l) # rest
      | _ \<Rightarrow> 0x25 # a # b # rest)"
| "unquote_item item = 0x25 # item"

definition unquote_to_bytes :: "str \<Rightarrow> bytes" where
  "unquote_to_bytes s =
     (case split_count (length s) s [0x25] of
        [] \<Rightarrow> []
      | b # bits \<Rightarrow> b @ concat (map unquote_item bits))"

definition is_continuation :: "nat \<Rightarrow> bool" where
  "is_continuation b \<longleftrightarrow> 0x80 \<le> b \<and> b < 0xC0"

text \<open>
  \<open>bytes.decode('utf-8', 'replace')\<close>: an invalid start byte, a start byte whose
  continuation is wrong (with the bytes of it that were right) and a sequence cut off by
  the end of the data each give one U+FFFD.
\<close>

fun utf8_decode :: "bytes \<Rightarrow> str" where
  "utf8_decode [] = []"
| "utf8_decode (ch # s) =
     (if ch < 0x80 then ch # utf8_decode s
      else if ch < 0xC2 then 0xFFFD # utf8_decode s
      else if ch < 0xE0 then
        (case s of
           [] \<Rightarrow> [0xFFFD]
         | ch2 # s2 \<Rightarrow>
             if \<not> is_continuation ch2 then 0xFFFD # utf8_decode s
             else ((ch - 0xC0) * 0x40 + (ch2 - 0x80)) # utf8_decode s2)
      else if ch < 0xF0 then
        (case s of
           [] \<Rightarrow> [0xFFFD]
         | ch2 # s2 \<Rightarrow>
             if \<not> is_continuation ch2 then 0xFFFD # utf8_decode s
             else if (if ch2 < 0xA0 then ch = 0xE0 else ch = 0xED) then 0xFFFD # utf8_decode s
             else
               (case s2 of
                  [] \<Rightarrow> [0xFFFD]
                | ch3 # s3 \<Rightarrow>
                    if \<not> is_continuation ch3 then 0xFFFD # utf8_decode s2
                    else ((ch - 0xE0) * 0x1000 + (ch2 - 0x80) * 0x40 + (ch3 - 0x80))
                           # utf8_decode s3))
      else if ch < 0xF5 then
        (case s of
           [] \<Rightarrow> [0xFFFD]
         | ch2 # s2 \<Rightarrow>
             if \<not> is_continuation ch2 then 0xFFFD # utf8_decode s
             else if (if ch2 < 0x90 then ch = 0xF0 else ch = 0xF4) then 0xFFFD # utf8_decode s
             else
               (case s2 of
                  [] \<Rightarrow> [0xFFFD]
                | ch3 # s3 \<Rightarrow>
                    if \<not> is_continuation ch3 then 0xFFFD # utf8_decode s2
                    else
                      (case s3 of
                         [] \<Rightarrow> [0xFFFD]
                       | ch4 # s4 \<Rightarrow>
                           if \<not> is_continuation ch4 then 0xFFFD # utf8_decode s3
                           else ((ch - 0xF0) * 0x40000 + (ch2 - 0x80) * 0x1000
                                   + (ch3 - 0x80) * 0x40 + (ch4 - 0x80))
                                  # utf8_decode s4)))
      else 0xFFFD # utf8_decode s)"

text \<open>
  The loop over the ASCII runs: \<open>run\<close> is the run read so far; a non-ASCII character
  ends it and is copied.
\<close>

fun unquote_parts :: "str \<Rightarrow> str \<Rightarrow> str" where
  "unquote_parts run [] = utf8_decode (unquote_to_bytes run)"
| "unquote_parts run (c # cs) =
     (if c < 0x80 then unquote_parts (run @ [c]) cs
      else utf8_decode (unquote_to_bytes run) @ c # unquote_parts [] cs)"

definition unquote :: "str \<Rightarrow> str" where
  "unquote s = (if 0x25 \<notin> set s then s else unquote_parts [] s)"

section \<open>The parsed feed\<close>

text \<open>
  What the code reads of the \<open>BeautifulSoup\<close> document. Navigation by tag name
  (\<open>jobs.rss\<close>, \<open>item.encoded\<close>) gives \<open>None\<close> when there is no such tag, and calling
  \<open>get_text\<close> on \<open>None\<close> raises \<open>AttributeError\<close>; a tag that exists always has a text,
  a \<open>str\<close>. So each tag the code navigates to is an option; for the leaves, the option
  holds the tag's text.
\<close>

record item =
  encoded :: "str option"

record channel_tag =
  title :: "str option"
  link :: "str option"
  description :: "str option"
  pubDate :: "str option"

record rss_tag =
  channel :: "channel_tag option"

text \<open>\<open>find_all_item\<close> is the result of \<open>find_all("item")\<close>, in document order.\<close>

record soup =
  rss :: "rss_tag option"
  find_all_item :: "item list"

definition get_text :: "str option \<Rightarrow> error + str" where
  "get_text tag = (case tag of None \<Rightarrow> Inl AttributeError | Some t \<Rightarrow> Inr t)"

section \<open>\<open>get_skills\<close>\<close>

definition skills_marker :: str where
  "skills_marker = lit ''Skills</b>:''"

definition br :: str where
  "br = lit ''<br />''"

definition comma :: str where
  "comma = lit '',''"

text \<open>
  One iteration of the loop of \<open>get_skills\<close>: the list \<open>result\<close> as the iteration
  finds it, and as it leaves it. Each \<open>try\<close> is a case distinction on the outcome of the
  guarded expression: the exceptions its \<open>except\<close> clauses name end the iteration with
  \<open>result\<close> as it was (\<open>continue\<close>), any other propagates. The read of
  \<open>item.encoded.get_text()\<close> is outside every \<open>try\<close>. The calls of \<open>logging.error\<close>
  do not influence the result and are left out.
\<close>

definition get_skills_item :: "str list \<Rightarrow> item \<Rightarrow> error + str list" where
  "get_skills_item result item =
     (case get_text (encoded item) of
        Inl e \<Rightarrow> Inl e
      | Inr content_encoded \<Rightarrow>
         (case (case str_split content_encoded skills_marker 1 of
                  Inl e \<Rightarrow> Inl e
                | Inr parts \<Rightarrow> getitem parts 1) of
            Inl IndexError \<Rightarrow> Inr result
          | Inl e \<Rightarrow> Inl e
          | Inr skills \<Rightarrow>
             (case (case str_split skills br 1 of
                      Inl e \<Rightarrow> Inl e
                    | Inr parts \<Rightarrow> getitem parts 0) of
                Inl AttributeError \<Rightarrow> Inr result
              | Inl TypeError \<Rightarrow> Inr result
              | Inl e \<Rightarrow> Inl e
              | Inr skills \<Rightarrow>
                 (case str_split skills comma (- 1) of
                    Inl TypeError \<Rightarrow> Inr result
                  | Inl AttributeError \<Rightarrow> Inr result
                  | Inl e \<Rightarrow> Inl e
                  | Inr skills \<Rightarrow>
                      Inr (result @ map (\<lambda>skill. str_strip (unquote skill)) skills)))))"

text \<open>The loop over the items; an exception that leaves an iteration leaves the loop.\<close>

fun get_skills_loop :: "str list \<Rightarrow> item list \<Rightarrow> error + str list" where
  "get_skills_loop result [] = Inr result"
| "get_skills_loop result (item # items) =
     (case get_skills_item result item of
        Inl e \<Rightarrow> Inl e
      | Inr result' \<Rightarrow> get_skills_loop result' items)"

definition get_skills :: "soup \<Rightarrow> error + str list" where
  "get_skills rss_doc = get_skills_loop [] (find_all_item rss_doc)"

section \<open>The collaborators and the world\<close>

text \<open>
  The HTTP client, the document parser, the JSON and gzip codecs, the clock and the storage
  client are libraries; the code is modelled over any behaviour of theirs. \<open>dumps\<close>,
  \<open>encode_utf8\<close> and \<open>gzip_compress\<close> are pure functions; \<open>requests_get\<close> and
  \<open>s3_upload_fileobj\<close> give the outcome of the one network call each stands for, a result
  or the exception raised. \<open>RSS_URL\<close> and \<open>AWS_S3_BUCKET\<close> are what \<open>os.getenv\<close>
  returned when the module was loaded, \<open>utcnow\<close> is
  \<open>str(datetime.datetime.now(datetime.timezone.utc))\<close>.
\<close>

record response =
  status_code :: int
  content :: bytes

datatype json = Str str | List "str list"

record env =
  RSS_URL :: "str option"
  AWS_S3_BUCKET :: "str option"
  requests_get :: "str option \<Rightarrow> error + response"
  BeautifulSoup :: "bytes \<Rightarrow> soup"
  dumps :: "(str \<times> json) list \<Rightarrow> str"
  encode_utf8 :: "str \<Rightarrow> bytes"
  gzip_compress :: "bytes \<Rightarrow> bytes"
  utcnow :: str
  s3_upload_fileobj :: "bytes \<Rightarrow> str option \<Rightarrow> str \<Rightarrow> error + unit"

text \<open>
  The part of the world that the code changes: the uploads it asked the storage client for
  (bucket, object name, bytes), and the objects that exist in the store as a result.
\<close>

record world =
  s3_calls :: "(str option \<times> str \<times> bytes) list"
  s3_objects :: "(str option \<times> str \<times> bytes) list"

section \<open>\<open>get_rss\<close>, \<open>upload_fileobj\<close> and \<open>lambda_handler\<close>\<close>

text \<open>\<open>get_rss\<close> returns the parsed document, or \<open>False\<close>, which is \<open>None\<close> here.\<close>

definition get_rss :: "env \<Rightarrow> str option \<Rightarrow> error + soup option" where
  "get_rss e rss_url =
     (case requests_get e rss_url of
        Inl ex \<Rightarrow> Inl ex
      | Inr response \<Rightarrow>
          if status_code response = 200
          then Inr (Some (BeautifulSoup e (content response)))
          else Inr None)"

text \<open>
  \<open>upload_fileobj\<close>, called with an object name (its only call gives one). A
  \<open>ClientError\<close> of the storage client is caught and turned into \<open>False\<close>; any other
  exception propagates.
\<close>

definition upload_fileobj ::
  "env \<Rightarrow> bytes \<Rightarrow> str option \<Rightarrow> str \<Rightarrow> world \<Rightarrow> (error + bool) \<times> world" where
  "upload_fileobj e fileobj bucket object_name w =
     (let w' = w\<lparr>s3_calls := s3_calls w @ [(bucket, object_name, fileobj)]\<rparr>
      in case s3_upload_fileobj e fileobj bucket object_name of
           Inl ClientError \<Rightarrow> (Inr False, w')
         | Inl ex \<Rightarrow> (Inl ex, w')
         | Inr _ \<Rightarrow>
             (Inr True,
              w'\<lparr>s3_objects := s3_objects w' @ [(bucket, object_name, fileobj)]\<rparr>))"

text \<open>\<open>jobs.rss.channel.<field>.get_text()\<close>.\<close>

definition channel_text ::
  "soup \<Rightarrow> (channel_tag \<Rightarrow> str option) \<Rightarrow> error + str" where
  "channel_text jobs field =
     (case rss jobs of
        None \<Rightarrow> Inl AttributeError
      | Some r \<Rightarrow>
         (case channel r of
            None \<Rightarrow> Inl AttributeError
          | Some c \<Rightarrow> get_text (field c)))"

text \<open>\<open>s.replace(" ", "_")\<close>.\<close>

definition replace_space :: "str \<Rightarrow> str" where
  "replace_space s = map (\<lambda>c. if c = 0x20 then 0x5F else c) s"

text \<open>
  \<open>lambda_handler\<close>. A \<open>BeautifulSoup\<close> object is always true in \<open>if jobs\<close>, so the test
  separates the document from \<open>False\<close>. The value that \<open>upload_fileobj\<close> returns is
  dropped. The logging calls are left out.
\<close>

definition lambda_handler :: "env \<Rightarrow> world \<Rightarrow> (error + bool) \<times> world" where
  "lambda_handler e w =
     (case get_rss e (RSS_URL e) of
        Inl ex \<Rightarrow> (Inl ex, w)
      | Inr None \<Rightarrow> (Inr False, w)
      | Inr (Some jobs) \<Rightarrow>
         (case channel_text jobs title of
            Inl ex \<Rightarrow> (Inl ex, w)
          | Inr title' \<Rightarrow>
         (case channel_text jobs link of
            Inl ex \<Rightarrow> (Inl ex, w)
          | Inr link' \<Rightarrow>
         (case channel_text jobs description of
            Inl ex \<Rightarrow> (Inl ex, w)
          | Inr description' \<Rightarrow>
         (case channel_text jobs pubDate of
            Inl ex \<Rightarrow> (Inl ex, w)
          | Inr pubdate \<Rightarrow>
         (case get_skills jobs of
            Inl ex \<Rightarrow> (Inl ex, w)
          | Inr retrieved_skill \<Rightarrow>
             (let content' =
                    [(lit ''title'', Str title'),
                     (lit ''link'', Str link'),
                     (lit ''description'', Str description'),
                     (lit ''pubdate'', Str pubdate),
                     (lit ''skills'', List retrieved_skill)];
                  serialized_content = dumps e content';
                  compressed_content = gzip_compress e (encode_utf8 e serialized_content);
                  current_time = replace_space (utcnow e);
                  object_name = lit ''upwork_skills_'' @ current_time @ lit ''.json.gz''
              in case upload_fileobj e compressed_content (AWS_S3_BUCKET e) object_name w of
                   (Inl ex, w') \<Rightarrow> (Inl ex, w')
                 | (Inr _, w') \<Rightarrow> (Inr True, w'))))))))"

section \<open>Concrete inputs\<close>

text \<open>
  Inputs for concrete evaluations. In \<open>fixture_env\<close> the HTTP client answers every
  request with the given status, the parser gives the given document, the storage client
  ends every upload with the given outcome; the codecs are stand-ins, since no evaluation
  below looks at the bytes. \<open>fixture_feed\<close> is a feed with the four channel fields and
  two items, the second without a skills marker.
\<close>

definition fixture_env :: "int \<Rightarrow> soup \<Rightarrow> error + unit \<Rightarrow> env" where
  "fixture_env status doc outcome =
     \<lparr>RSS_URL = Some (lit ''http://x''),
      AWS_S3_BUCKET = Some (lit ''bucket''),
      requests_get = (\<lambda>url. Inr \<lparr>status_code = status, content = []\<rparr>),
      BeautifulSoup = (\<lambda>body. doc),
      dumps = (\<lambda>obj. concat (map fst obj)),
      encode_utf8 = (\<lambda>s. s),
      gzip_compress = (\<lambda>b. b),
      utcnow = lit ''2020-01-01 00:00:00+00:00'',
      s3_upload_fileobj = (\<lambda>fileobj bucket name. outcome)\<rparr>"

definition fixture_world :: world where
  "fixture_world = \<lparr>s3_calls = [], s3_objects = []\<rparr>"

definition fixture_feed :: soup where
  "fixture_feed =
     \<lparr>rss = Some \<lparr>channel = Some \<lparr>title = Some (lit ''Jobs''), link = Some (lit ''http://x''),
                                   description = Some (lit ''d''), pubDate = Some (lit ''Mon'')\<rparr>\<rparr>,
      find_all_item = [\<lparr>encoded = Some (lit ''Skills</b>: Go<br />'')\<rparr>,
                       \<lparr>encoded = Some (lit ''none'')\<rparr>]\<rparr>"

section \<open>Searching and splitting\<close>

lemma str_find_None_iff: "str_find s sep = None \<longleftrightarrow> \<not> sublist sep s"
  apply (induction s) apply simp apply (simp add: sublist_Cons_right) done

lemma str_find_prefix: "str_find (sep @ rest) sep = Some 0"
proof (cases "sep @ rest")
  case Nil
  then show ?thesis by simp
next
  case (Cons a list)
  then have "prefix sep (a # list)" by (metis prefixI)
  then show ?thesis using Cons by simp
qed

lemma no_border:
  assumes "sep \<noteq> []" "hd sep \<notin> set (tl sep)" "pre \<noteq> []" "\<not> prefix sep pre"
  shows "\<not> prefix sep (pre @ sep @ rest)"
proof
  assume "prefix sep (pre @ sep @ rest)"
  then obtain us where us: "sep = pre @ us" "prefix us (sep @ rest)"
    using assms(4) unfolding prefix_append by blast
  have "us \<noteq> []" using us(1) assms(4) by (metis append_Nil2 prefix_order.order_refl)
  then obtain u us' where u: "us = u # us'" by (cases us) simp_all
  obtain x xs where x: "sep = x # xs" using assms(1) by (cases sep) simp_all
  have "prefix (u # us') ((x # xs) @ rest)" using us(2) unfolding u x .
  then have "u = x" by simp
  obtain p ps where p: "pre = p # ps" using assms(3) by (cases pre) simp_all
  have "tl sep = ps @ u # us'" using us(1) unfolding p u by simp
  then have "u \<in> set (tl sep)" by simp
  moreover have "hd sep = x" unfolding x by simp
  ultimately show False using assms(2) \<open>u = x\<close> by simp
qed

lemma str_find_first:
  assumes "sep \<noteq> []" "hd sep \<notin> set (tl sep)"
  shows "\<not> sublist sep pre \<Longrightarrow> str_find (pre @ sep @ rest) sep = Some (length pre)"
proof (induction pre)
  case Nil
  then show ?case by (simp add: str_find_prefix)
next
  case (Cons p ps)
  have np: "\<not> prefix sep (p # ps)" using Cons.prems by auto
  have "\<not> prefix sep ((p # ps) @ sep @ rest)"
    by (rule no_border[OF assms]) (use np in auto)
  moreover have "\<not> sublist sep ps" using Cons.prems by (auto simp: sublist_Cons_right)
  ultimately show ?case using Cons.IH by simp
qed

lemma split_count_None: "str_find s sep = None \<Longrightarrow> split_count n s sep = [s]"
  by (cases n) auto

lemma split_count_cut:
  "str_find (pre @ sep @ rest) sep = Some (length pre) \<Longrightarrow>
   split_count (Suc n) (pre @ sep @ rest) sep = pre # split_count n rest sep"
  by simp

lemma str_find_less: "str_find s sep = Some i \<Longrightarrow> i \<le> length s"
  by (induction s arbitrary: i) (auto split: if_splits)

lemma split_count_enough_aux:
  "sep \<noteq> [] \<Longrightarrow> length s \<le> n \<Longrightarrow> length s \<le> m \<Longrightarrow> split_count n s sep = split_count m s sep"
proof (induction n arbitrary: s m)
  case 0
  then show ?case by (simp add: split_count_None)
next
  case (Suc n)
  show ?case
  proof (cases "str_find s sep")
    case None
    then show ?thesis by (simp add: split_count_None)
  next
    case (Some i)
    then have "s \<noteq> []" using Suc.prems(1) by auto
    then obtain m' where m: "m = Suc m'" using Suc.prems(3) by (cases m) auto
    let ?r = "drop (i + length sep) s"
    obtain k where "length sep = Suc k" using Suc.prems(1) by (cases sep) simp_all
    then have "length ?r \<le> n" "length ?r \<le> m'"
      using Suc.prems(2,3) m by simp_all
    then have "split_count n ?r sep = split_count m' ?r sep"
      by (rule Suc.IH[OF Suc.prems(1)])
    then show ?thesis unfolding m using Some by simp
  qed
qed

lemma split_count_enough:
  "sep \<noteq> [] \<Longrightarrow> length s \<le> n \<Longrightarrow> split_count n s sep = split_count (length s) s sep"
  by (rule split_count_enough_aux) auto

lemma no_sep_char: "c \<notin> set s \<Longrightarrow> \<not> sublist [c] s"
  using set_mono_sublist[of "[c]" s] by auto

lemma str_find_char_first:
  "c \<notin> set tok \<Longrightarrow> str_find (tok @ [c] @ rest) [c] = Some (length tok)"
  by (rule str_find_first) (simp_all add: no_sep_char)

lemma split_count_tokens:
  "\<forall>x \<in> set (t # ts). c \<notin> set x \<Longrightarrow>
   length (concat (map (\<lambda>x. x @ [c]) ts) @ t) \<le> n \<Longrightarrow>
   split_count n (concat (map (\<lambda>x. x @ [c]) ts) @ t) [c] = ts @ [t]"
proof (induction ts arbitrary: n)
  case Nil
  then have "str_find t [c] = None" by (simp add: str_find_None_iff no_sep_char)
  then show ?case by (simp add: split_count_None)
next
  case (Cons x ts)
  let ?rest = "concat (map (\<lambda>x. x @ [c]) ts) @ t"
  obtain n' where n: "n = Suc n'" using Cons.prems(2) by (cases n) simp_all
  have len: "length ?rest \<le> n'" using Cons.prems(2) n by simp
  have nx: "c \<notin> set x" using Cons.prems(1) by simp
  have f: "str_find (x @ [c] @ ?rest) [c] = Some (length x)"
    by (rule str_find_char_first[OF nx])
  have "split_count (Suc n') (x @ [c] @ ?rest) [c] = x # split_count n' ?rest [c]"
    by (rule split_count_cut[OF f])
  moreover have "split_count n' ?rest [c] = ts @ [t]"
    by (rule Cons.IH) (use Cons.prems(1) len in simp_all)
  ultimately show ?case unfolding n by simp
qed

lemma str_find_append:
  "str_find s sep = Some i \<Longrightarrow> str_find (s @ t) sep = Some i"
proof (induction s arbitrary: i)
  case Nil
  then show ?case by (cases t) (simp_all split: if_splits)
next
  case (Cons a s)
  show ?case
  proof (cases "prefix sep (a # s)")
    case True
    then have "prefix sep ((a # s) @ t)" by (rule prefix_prefix)
    then show ?thesis using True Cons.prems by simp
  next
    case False
    then obtain j where j: "str_find s sep = Some j" "i = Suc j"
      using Cons.prems by auto
    have np: "\<not> prefix sep (a # s @ t)"
    proof
      assume p: "prefix sep (a # s @ t)"
      have "length sep \<le> length (a # s)"
        using j(1) str_find_None_iff[of s sep] sublist_length_le[of sep s]
        by (cases "sublist sep s") simp_all
      then have "prefix sep (a # s)" using p
        by (metis append_Cons prefix_length_prefix append_prefixD prefix_order.order_refl prefixI)
      then show False using False by simp
    qed
    show ?thesis using Cons.IH[OF j(1)] np j(2) by simp
  qed
qed

lemma str_find_bound: "str_find s sep = Some i \<Longrightarrow> i + length sep \<le> length s"
proof (induction s arbitrary: i)
  case Nil
  then show ?case by (simp split: if_splits)
next
  case (Cons a s)
  show ?case
  proof (cases "prefix sep (a # s)")
    case True
    then show ?thesis using Cons.prems prefix_length_le[OF True] by simp
  next
    case False
    then show ?thesis using Cons.prems Cons.IH by auto
  qed
qed

lemma split_count_trailing:
  "length s \<le> n \<Longrightarrow> split_count (Suc n) (s @ [c]) [c] = split_count n s [c] @ [[]]"
proof (induction n arbitrary: s)
  case 0
  then show ?case by simp
next
  case (Suc n)
  show ?case
  proof (cases "str_find s [c]")
    case None
    then have "\<not> sublist [c] s" by (simp add: str_find_None_iff)
    then have "str_find (s @ [c] @ []) [c] = Some (length s)"
      by (intro str_find_first) simp_all
    then show ?thesis using None by (simp add: split_count_None)
  next
    case (Some i)
    have f: "str_find (s @ [c]) [c] = Some i" by (rule str_find_append[OF Some])
    have i: "Suc i \<le> length s" using str_find_bound[OF Some] by simp
    let ?r = "drop (Suc i) s"
    have "length ?r \<le> n" using Suc.prems i by simp
    then have "split_count (Suc n) (?r @ [c]) [c] = split_count n ?r [c] @ [[]]"
      by (rule Suc.IH)
    then show ?thesis using f Some i by simp
  qed
qed

lemma split_all_trailing:
  "split_count (length (s @ [c])) (s @ [c]) [c] = split_count (length s) s [c] @ [[]]"
  using split_count_trailing[of s "length s" c] by simp

section \<open>One iteration and the loop of \<open>get_skills\<close>\<close>

lemma comma_eq: "comma = [44]"
  by (simp add: comma_def lit_def)

lemma marker_facts: "skills_marker \<noteq> []" "hd skills_marker \<notin> set (tl skills_marker)"
  by (simp_all add: skills_marker_def lit_def)

lemma br_facts: "br \<noteq> []" "hd br \<notin> set (tl br)"
  by (simp_all add: br_def lit_def)

lemma comma_facts: "comma \<noteq> []" "hd comma \<notin> set (tl comma)"
  by (simp_all add: comma_def lit_def)

lemma get_skills_item_acc:
  "get_skills_item result item =
     (case get_skills_item [] item of Inl e \<Rightarrow> Inl e | Inr ts \<Rightarrow> Inr (result @ ts))"
  by (simp add: get_skills_item_def split: sum.splits error.splits)

lemma get_skills_loop_acc:
  "get_skills_loop result items =
     (case get_skills_loop [] items of Inl e \<Rightarrow> Inl e | Inr r \<Rightarrow> Inr (result @ r))"
proof (induction items arbitrary: result)
  case Nil
  show ?case by simp
next
  case (Cons it items)
  show ?case
  proof (cases "get_skills_item [] it")
    case (Inl e)
    then show ?thesis using get_skills_item_acc[of result it] by simp
  next
    case (Inr ts)
    then have "get_skills_item result it = Inr (result @ ts)"
      using get_skills_item_acc[of result it] by simp
    then show ?thesis using Inr Cons.IH[of "result @ ts"] Cons.IH[of ts]
      by (simp split: sum.splits)
  qed
qed

lemma get_skills_loop_append:
  "get_skills_loop result (xs @ ys) =
     (case get_skills_loop result xs of Inl e \<Rightarrow> Inl e | Inr r \<Rightarrow> get_skills_loop r ys)"
  by (induction xs arbitrary: result) (simp_all split: sum.splits)

lemma item_no_encoded:
  "encoded it = None \<Longrightarrow> get_skills_item r it = Inl AttributeError"
  by (simp add: get_skills_item_def get_text_def)

lemma item_no_marker:
  assumes "encoded it = Some c" "\<not> sublist skills_marker c"
  shows "get_skills_item r it = Inr r"
proof -
  have "str_find c skills_marker = None" using assms(2) by (simp add: str_find_None_iff)
  then have "str_split c skills_marker 1 = Inr [c]"
    by (simp add: str_split_def marker_facts)
  then show ?thesis using assms(1)
    by (simp add: get_skills_item_def get_text_def getitem_def)
qed

lemma split_marker:
  assumes "\<not> sublist skills_marker pre"
  shows "str_split (pre @ skills_marker @ rest) skills_marker 1 = Inr [pre, rest]"
proof -
  have "str_find (pre @ skills_marker @ rest) skills_marker = Some (length pre)"
    by (rule str_find_first[OF marker_facts assms])
  then show ?thesis by (simp add: str_split_def marker_facts)
qed

lemma split_br:
  assumes "\<not> sublist br seg"
  shows "str_split (seg @ br @ rest) br 1 = Inr [seg, rest]"
proof -
  have "str_find (seg @ br @ rest) br = Some (length seg)"
    by (rule str_find_first[OF br_facts assms])
  then show ?thesis by (simp add: str_split_def br_facts)
qed

lemma split_no_br:
  assumes "\<not> sublist br rest"
  shows "str_split rest br 1 = Inr [rest]"
proof -
  have "str_find rest br = None" using assms by (simp add: str_find_None_iff)
  then show ?thesis by (simp add: str_split_def br_facts)
qed

lemma item_segment:
  assumes "encoded it = Some (pre @ skills_marker @ rest)"
    and "\<not> sublist skills_marker pre"
    and "str_split rest br 1 = Inr (seg # others)"
  shows "get_skills_item r it =
           Inr (r @ map (\<lambda>skill. str_strip (unquote skill))
                      (split_count (length seg) seg comma))"
  using assms(1,3) split_marker[OF assms(2), of rest]
  by (simp add: get_skills_item_def get_text_def getitem_def str_split_def[of seg] comma_facts)

lemma item_marker_br:
  assumes "encoded it = Some (pre @ skills_marker @ seg @ br @ rest)"
    and "\<not> sublist skills_marker pre" and "\<not> sublist br seg"
  shows "get_skills_item r it =
           Inr (r @ map (\<lambda>skill. str_strip (unquote skill))
                      (split_count (length seg) seg comma))"
  by (rule item_segment[OF assms(1,2) split_br[OF assms(3)]])

lemma item_marker_no_br:
  assumes "encoded it = Some (pre @ skills_marker @ rest)"
    and "\<not> sublist skills_marker pre" and "\<not> sublist br rest"
  shows "get_skills_item r it =
           Inr (r @ map (\<lambda>skill. str_strip (unquote skill))
                      (split_count (length rest) rest comma))"
  by (rule item_segment[OF assms(1,2) split_no_br[OF assms(3)]])

lemma split_count_nonempty: "split_count n s sep \<noteq> []"
  by (cases n) (simp_all split: option.splits)

lemma item_total:
  assumes "encoded it = Some c"
  shows "\<exists>ts. get_skills_item r it = Inr (r @ ts)"
proof (cases "sublist skills_marker c")
  case False
  then show ?thesis using item_no_marker[OF assms, of r] by simp
next
  case True
  then obtain i where i: "str_find c skills_marker = Some i"
    using str_find_None_iff[of c skills_marker] by (cases "str_find c skills_marker") simp_all
  let ?rest = "drop (i + length skills_marker) c"
  obtain seg others where so: "split_count (Suc 0) ?rest br = seg # others"
    using split_count_nonempty[of "Suc 0" ?rest br] by (cases "split_count (Suc 0) ?rest br") simp_all
  have "get_skills_item r it =
          Inr (r @ map (\<lambda>skill. str_strip (unquote skill)) (split_count (length seg) seg comma))"
    using assms i so
    by (simp add: get_skills_item_def get_text_def getitem_def str_split_def
        marker_facts br_facts comma_facts split_count_nonempty)
  then show ?thesis by blast
qed

lemma item_kept_segment:
  assumes "encoded it = Some (pre @ skills_marker @ seg @ rest)"
    and "\<not> sublist skills_marker pre" and "\<not> sublist br seg"
    and "rest = [] \<or> prefix br rest"
  shows "get_skills_item r it =
           Inr (r @ map (\<lambda>skill. str_strip (unquote skill))
                      (split_count (length seg) seg comma))"
proof (cases "rest = []")
  case True
  then show ?thesis using item_marker_no_br[of it pre seg r] assms(1,2,3) by simp
next
  case False
  then obtain post where "rest = br @ post" using assms(4) by (auto simp: prefix_def)
  then show ?thesis using item_marker_br[of it pre seg post r] assms(1,2,3) by simp
qed

lemma get_skills_at:
  assumes "find_all_item d = before @ [it] @ after"
    and "\<And>r. get_skills_item r it = Inr (r @ ts)"
    and "get_skills (d\<lparr>find_all_item := before\<rparr>) = Inr r1"
    and "get_skills (d\<lparr>find_all_item := after\<rparr>) = Inr r2"
  shows "get_skills d = Inr (r1 @ ts @ r2)"
proof -
  have a: "get_skills_loop [] before = Inr r1" using assms(3) by (simp add: get_skills_def)
  have b: "get_skills_loop [] after = Inr r2" using assms(4) by (simp add: get_skills_def)
  have "get_skills_loop (r1 @ ts) after = Inr (r1 @ ts @ r2)"
    using get_skills_loop_acc[of "r1 @ ts" after] b by simp
  then show ?thesis using assms(1,2) a
    by (simp add: get_skills_def get_skills_loop_append)
qed

lemma get_skills_skip:
  assumes "find_all_item d = before @ [it] @ after"
    and "\<And>r. get_skills_item r it = Inr r"
  shows "get_skills d = get_skills (d\<lparr>find_all_item := before @ after\<rparr>)"
  using assms by (simp add: get_skills_def get_skills_loop_append split: sum.splits)

lemma get_skills_loop_total:
  "\<forall>it \<in> set items. encoded it \<noteq> None \<Longrightarrow> \<exists>res. get_skills_loop r items = Inr res"
proof (induction items arbitrary: r)
  case Nil
  show ?case by simp
next
  case (Cons it items)
  then obtain c where "encoded it = Some c" by auto
  then obtain ts where "get_skills_item r it = Inr (r @ ts)" using item_total by blast
  then show ?case using Cons.IH[of "r @ ts"] Cons.prems by simp
qed

lemma get_skills_loop_no_marker:
  "\<forall>it \<in> set items. \<exists>c. encoded it = Some c \<and> \<not> sublist skills_marker c \<Longrightarrow>
   get_skills_loop r items = Inr r"
proof (induction items)
  case Nil
  show ?case by simp
next
  case (Cons it items)
  then obtain c where "encoded it = Some c" "\<not> sublist skills_marker c" by auto
  then have "get_skills_item r it = Inr r" by (rule item_no_marker)
  then show ?case using Cons by simp
qed

lemma sublist_single: "sublist [c] s \<longleftrightarrow> c \<in> set s"
proof
  assume "sublist [c] s"
  then show "c \<in> set s" using set_mono_sublist[of "[c]" s] by simp
next
  assume "c \<in> set s"
  then obtain ys zs where "s = ys @ [c] @ zs" by (auto dest: split_list)
  then show "sublist [c] s" by (simp only: sublist_appendI)
qed

lemma str_find_char:
  "str_find s [c] = Some i \<Longrightarrow> c \<notin> set (take i s) \<and> i < length s \<and> s ! i = c"
proof (induction s arbitrary: i)
  case Nil
  then show ?case by simp
next
  case (Cons a s)
  show ?case
  proof (cases "a = c")
    case True
    then show ?thesis using Cons.prems by simp
  next
    case False
    then obtain j where j: "str_find s [c] = Some j" "i = Suc j"
      using Cons.prems by auto
    then show ?thesis using Cons.IH[OF j(1)] False by simp
  qed
qed

lemma split_count_length:
  "length s \<le> n \<Longrightarrow> length (split_count n s [c]) = Suc (count_list s c)"
proof (induction n arbitrary: s)
  case 0
  then show ?case by simp
next
  case (Suc n)
  show ?case
  proof (cases "str_find s [c]")
    case None
    then have "c \<notin> set s" by (simp add: str_find_None_iff sublist_single)
    then show ?thesis using None by (simp add: count_notin)
  next
    case (Some i)
    note f = str_find_char[OF Some]
    let ?r = "drop (Suc i) s"
    have s: "s = take i s @ c # ?r" using f id_take_nth_drop[of i s] by simp
    have "count_list s c = count_list (take i s @ c # ?r) c" using s by simp
    also have "\<dots> = Suc (count_list ?r c)" using f by (simp add: count_notin)
    finally have cnt: "count_list s c = Suc (count_list ?r c)" .
    have "length ?r \<le> n" using Suc.prems f by simp
    then have "length (split_count n ?r [c]) = Suc (count_list ?r c)" by (rule Suc.IH)
    then show ?thesis using Some cnt by simp
  qed
qed

lemma decode_trim_empty: "str_strip (unquote []) = []"
  by (simp add: unquote_def str_strip_def)

lemma str_split_comma: "str_split s comma (- 1) = Inr (split_count (length s) s comma)"
  by (simp add: str_split_def comma_facts)


lemma example_tokens:
  "map (\<lambda>skill. str_strip (unquote skill))
     (split_count (length (lit ''a, b,c '')) (lit ''a, b,c '') comma) =
   [lit ''a'', lit ''b'', lit ''c'']"
  by (simp add: lit_def comma_def unquote_def str_strip_def isspace_def)

lemma example_no_br: "\<not> sublist br (lit ''a, b,c '')"
  by (simp add: lit_def br_def sublist_code)

lemma example_lit: "lit ''a, b,c <br />'' @ post = lit ''a, b,c '' @ br @ post"
  by (simp add: lit_def br_def)

section \<open>Skill extraction: tokens of an item\<close>

text \<open>
  Claim C1. Let an item's encoded content be \<open>pre\<close>, the marker \<open>Skills</b>:\<close>, the text
  \<open>a, b,c <br />\<close> and anything after it, the marker not occurring in \<open>pre\<close> (so that
  this is the first marker of the content). Then the item gives exactly the tokens
  \<open>a\<close>, \<open>b\<close>, \<open>c\<close>, trimmed and in this order, between what the items before it and the
  items after it give.
\<close>

theorem extract_example_tokens:
  assumes "find_all_item d = before @ [it] @ after"
    and "encoded it = Some (pre @ skills_marker @ lit ''a, b,c <br />'' @ post)"
    and "\<not> sublist skills_marker pre"
    and "get_skills (d\<lparr>find_all_item := before\<rparr>) = Inr r1"
    and "get_skills (d\<lparr>find_all_item := after\<rparr>) = Inr r2"
  shows "get_skills d = Inr (r1 @ [lit ''a'', lit ''b'', lit ''c''] @ r2)"
proof -
  have enc: "encoded it = Some (pre @ skills_marker @ lit ''a, b,c '' @ br @ post)"
    using assms(2) by (simp only: example_lit)
  have "\<And>r. get_skills_item r it = Inr (r @ [lit ''a'', lit ''b'', lit ''c''])"
    using item_marker_br[OF enc assms(3) example_no_br] by (simp only: example_tokens)
  then show ?thesis by (rule get_skills_at[OF assms(1) _ assms(4,5)])
qed

text \<open>
  The statement of C1 at the content \<open>x Skills</b>:a, b,c <br />y\<close> of a feed with
  this one item.
\<close>

theorem extract_example_tokens_witness:
  "get_skills \<lparr>rss = None,
     find_all_item = [\<lparr>encoded = Some (lit ''x Skills</b>:a, b,c <br />y'')\<rparr>]\<rparr>
   = Inr [lit ''a'', lit ''b'', lit ''c'']"
  using extract_example_tokens[of
      "\<lparr>rss = None, find_all_item = [\<lparr>encoded = Some (lit ''x Skills</b>:a, b,c <br />y'')\<rparr>]\<rparr>"
      "[]" "\<lparr>encoded = Some (lit ''x Skills</b>:a, b,c <br />y'')\<rparr>" "[]"
      "lit ''x ''" "lit ''y''" "[]" "[]"]
  by (simp add: get_skills_def skills_marker_def lit_def sublist_code)

text \<open>
  Claim C6. Let the kept segment of an item (the text between the first marker and the
  first \<open><br />\<close> after it, or the end of the content) be the comma-free tokens
  \<open>ts\<close>, \<open>t\<close> joined by commas. Then the item gives, for each token in order, the token
  URL-decoded and after that trimmed: \<open>str_strip (unquote tok)\<close>. In particular the token
  \<open>C%2B%2B\<close> appears as \<open>C++\<close>, and a \<open>%20\<close> at the start of a token is decoded to a
  space before the trimming, which removes it.
\<close>

theorem tokens_decoded_then_trimmed:
  assumes "find_all_item d = before @ [it] @ after"
    and "encoded it = Some (pre @ skills_marker @ seg @ rest)"
    and "seg = concat (map (\<lambda>x. x @ comma) ts) @ t"
    and "\<forall>x \<in> set (ts @ [t]). \<not> sublist comma x"
    and "\<not> sublist skills_marker pre"
    and "\<not> sublist br seg"
    and "rest = [] \<or> prefix br rest"
    and "get_skills (d\<lparr>find_all_item := before\<rparr>) = Inr r1"
    and "get_skills (d\<lparr>find_all_item := after\<rparr>) = Inr r2"
  shows "get_skills d = Inr (r1 @ map (\<lambda>tok. str_strip (unquote tok)) (ts @ [t]) @ r2) \<and>
         str_strip (unquote (lit ''C%2B%2B'')) = lit ''C++'' \<and>
         str_strip (unquote (lit ''%20C%2B%2B '')) = lit ''C++''"
proof (intro conjI)
  have "\<forall>x \<in> set (t # ts). 44 \<notin> set x"
    using assms(4) by (simp add: comma_eq sublist_single)
  then have "split_count (length seg) seg comma = ts @ [t]"
    unfolding assms(3) comma_eq by (intro split_count_tokens) simp_all
  then have "\<And>r. get_skills_item r it =
      Inr (r @ map (\<lambda>tok. str_strip (unquote tok)) (ts @ [t]))"
    using item_kept_segment[OF assms(2,5,6,7)] by simp
  then show "get_skills d = Inr (r1 @ map (\<lambda>tok. str_strip (unquote tok)) (ts @ [t]) @ r2)"
    by (rule get_skills_at[OF assms(1) _ assms(8,9)])
next
  show "str_strip (unquote (lit ''C%2B%2B'')) = lit ''C++''"
    by (simp add: lit_def unquote_def unquote_to_bytes_def hexdig_def str_strip_def isspace_def)
next
  show "str_strip (unquote (lit ''%20C%2B%2B '')) = lit ''C++''"
    by (simp add: lit_def unquote_def unquote_to_bytes_def hexdig_def str_strip_def isspace_def)
qed

text \<open>The statement of C6 at the content \<open>Skills</b>:C%2B%2B, Go<br />\<close>.\<close>

theorem tokens_decoded_then_trimmed_witness:
  "get_skills \<lparr>rss = None,
     find_all_item = [\<lparr>encoded = Some (lit ''Skills</b>:C%2B%2B, Go<br />'')\<rparr>]\<rparr>
   = Inr [lit ''C++'', lit ''Go'']"
proof -
  let ?it = "\<lparr>encoded = Some (lit ''Skills</b>:C%2B%2B, Go<br />'')\<rparr>"
  let ?d = "\<lparr>rss = None, find_all_item = [?it]\<rparr>"
  have 1: "find_all_item ?d = [] @ [?it] @ []" by simp
  have 2: "encoded ?it = Some ([] @ skills_marker @ lit ''C%2B%2B, Go'' @ br)"
    by (simp add: lit_def skills_marker_def br_def)
  have 3: "lit ''C%2B%2B, Go'' = concat (map (\<lambda>x. x @ comma) [lit ''C%2B%2B'']) @ lit '' Go''"
    by (simp add: lit_def comma_def)
  have 4: "\<forall>x \<in> set ([lit ''C%2B%2B''] @ [lit '' Go'']). \<not> sublist comma x"
    by (simp add: lit_def comma_def sublist_code)
  have 5: "\<not> sublist skills_marker []" by (simp add: marker_facts)
  have 6: "\<not> sublist br (lit ''C%2B%2B, Go'')" by (simp add: lit_def br_def sublist_code)
  have 7: "br = [] \<or> prefix br br" by simp
  have 8: "get_skills (?d\<lparr>find_all_item := []\<rparr>) = Inr []" by (simp add: get_skills_def)
  have "get_skills ?d =
      Inr ([] @ map (\<lambda>tok. str_strip (unquote tok)) ([lit ''C%2B%2B''] @ [lit '' Go'']) @ [])"
    using tokens_decoded_then_trimmed[OF 1 2 3 4 5 6 7 8 8] by blast
  moreover have "str_strip (unquote (lit ''C%2B%2B'')) = lit ''C++''"
    by (simp add: lit_def unquote_def unquote_to_bytes_def hexdig_def str_strip_def isspace_def)
  moreover have "str_strip (unquote (lit '' Go'')) = lit ''Go''"
    by (simp add: lit_def unquote_def str_strip_def isspace_def)
  ultimately show ?thesis by simp
qed

text \<open>
  Claim C7. When the kept segment of an item ends in a comma (it is \<open>seg\<close> followed by a
  comma), the list the item gives ends with the empty string, and before it there is one
  string for every comma-separated piece of \<open>seg\<close>, one more than \<open>seg\<close> has commas
  (code point 44): no piece is dropped for being empty or blank.
\<close>

theorem trailing_comma_preserved:
  assumes "find_all_item d = before @ [it] @ after"
    and "encoded it = Some (pre @ skills_marker @ seg @ comma @ rest)"
    and "\<not> sublist skills_marker pre"
    and "\<not> sublist br (seg @ comma)"
    and "rest = [] \<or> prefix br rest"
    and "get_skills (d\<lparr>find_all_item := before\<rparr>) = Inr r1"
    and "get_skills (d\<lparr>find_all_item := after\<rparr>) = Inr r2"
  shows "\<exists>toks. length toks = Suc (count_list seg 44) \<and>
                get_skills d = Inr (r1 @ (toks @ [[]]) @ r2)"
proof -
  let ?f = "\<lambda>skill. str_strip (unquote skill)"
  let ?toks = "map ?f (split_count (length seg) seg [44])"
  have enc: "encoded it = Some (pre @ skills_marker @ (seg @ comma) @ rest)"
    using assms(2) by simp
  have "split_count (length (seg @ comma)) (seg @ comma) comma =
          split_count (length seg) seg [44] @ [[]]"
    unfolding comma_eq by (rule split_all_trailing)
  then have "\<And>r. get_skills_item r it = Inr (r @ (?toks @ [[]]))"
    using item_kept_segment[OF enc assms(3,4,5)] by (simp add: decode_trim_empty)
  then have "get_skills d = Inr (r1 @ (?toks @ [[]]) @ r2)"
    by (rule get_skills_at[OF assms(1) _ assms(6,7)])
  moreover have "length ?toks = Suc (count_list seg 44)"
    by (simp add: split_count_length)
  ultimately show ?thesis by blast
qed

text \<open>The statement of C7 at the content \<open>Skills</b>:a,b,\<close>.\<close>

theorem trailing_comma_preserved_witness:
  "\<exists>toks. length toks = 2 \<and>
     get_skills \<lparr>rss = None, find_all_item = [\<lparr>encoded = Some (lit ''Skills</b>:a,b,'')\<rparr>]\<rparr>
       = Inr (toks @ [[]])"
proof -
  let ?it = "\<lparr>encoded = Some (lit ''Skills</b>:a,b,'')\<rparr>"
  let ?d = "\<lparr>rss = None, find_all_item = [?it]\<rparr>"
  have 1: "find_all_item ?d = [] @ [?it] @ []" by simp
  have 2: "encoded ?it = Some ([] @ skills_marker @ lit ''a,b'' @ comma @ [])"
    by (simp add: lit_def skills_marker_def comma_def)
  have 3: "\<not> sublist skills_marker []" by (simp add: marker_facts)
  have 4: "\<not> sublist br (lit ''a,b'' @ comma)"
    by (simp add: lit_def br_def comma_def sublist_code)
  have 5: "([]::str) = [] \<or> prefix br []" by simp
  have 6: "get_skills (?d\<lparr>find_all_item := []\<rparr>) = Inr []" by (simp add: get_skills_def)
  have "count_list (lit ''a,b'') 44 = 1" by (simp add: lit_def)
  then show ?thesis using trailing_comma_preserved[OF 1 2 3 4 5 6 6]
    by (simp add: numeral_2_eq_2)
qed

text \<open>
  Claim C8. Only the first marker and the first \<open><br />\<close> after it count: when two items
  agree up to the first \<open><br />\<close> after the first marker, a feed gives the same result
  with either of them in the same place, whatever follows that \<open><br />\<close> (more markers,
  more skill lists); and the item alone gives the tokens of the segment between the two.
\<close>

theorem only_first_marker_and_first_br:
  assumes "encoded it = Some (pre @ skills_marker @ seg @ br @ post)"
    and "encoded it' = Some (pre @ skills_marker @ seg @ br @ post')"
    and "\<not> sublist skills_marker pre"
    and "\<not> sublist br seg"
  shows "get_skills (d\<lparr>find_all_item := before @ [it] @ after\<rparr>) =
           get_skills (d\<lparr>find_all_item := before @ [it'] @ after\<rparr>) \<and>
         get_skills (d\<lparr>find_all_item := [it]\<rparr>) =
           Inr (map (\<lambda>skill. str_strip (unquote skill)) (split_count (length seg) seg comma))"
proof
  have "\<And>r. get_skills_item r it = get_skills_item r it'"
    using item_marker_br[OF assms(1,3,4)] item_marker_br[OF assms(2,3,4)] by simp
  then show "get_skills (d\<lparr>find_all_item := before @ [it] @ after\<rparr>) =
           get_skills (d\<lparr>find_all_item := before @ [it'] @ after\<rparr>)"
    by (simp add: get_skills_def get_skills_loop_append split: sum.splits)
next
  show "get_skills (d\<lparr>find_all_item := [it]\<rparr>) =
           Inr (map (\<lambda>skill. str_strip (unquote skill)) (split_count (length seg) seg comma))"
    using item_marker_br[OF assms(1,3,4), of "[]"] by (simp add: get_skills_def)
qed

text \<open>
  The statement of C8 at the contents \<open>Skills</b>:a<br />Skills</b>:z<br />\<close> and
  \<open>Skills</b>:a<br />\<close>.
\<close>

theorem only_first_marker_and_first_br_witness:
  "get_skills \<lparr>rss = None,
       find_all_item = [\<lparr>encoded = Some (lit ''Skills</b>:a<br />Skills</b>:z<br />'')\<rparr>]\<rparr> =
     get_skills \<lparr>rss = None, find_all_item = [\<lparr>encoded = Some (lit ''Skills</b>:a<br />'')\<rparr>]\<rparr> \<and>
   get_skills \<lparr>rss = None,
       find_all_item = [\<lparr>encoded = Some (lit ''Skills</b>:a<br />Skills</b>:z<br />'')\<rparr>]\<rparr> =
     Inr [lit ''a'']"
proof -
  let ?it = "\<lparr>encoded = Some (lit ''Skills</b>:a<br />Skills</b>:z<br />'')\<rparr>"
  let ?it' = "\<lparr>encoded = Some (lit ''Skills</b>:a<br />'')\<rparr>"
  have 1: "encoded ?it = Some ([] @ skills_marker @ lit ''a'' @ br @ lit ''Skills</b>:z<br />'')"
    by (simp add: lit_def skills_marker_def br_def)
  have 2: "encoded ?it' = Some ([] @ skills_marker @ lit ''a'' @ br @ [])"
    by (simp add: lit_def skills_marker_def br_def)
  have 3: "\<not> sublist skills_marker []" by (simp add: marker_facts)
  have 4: "\<not> sublist br (lit ''a'')" by (simp add: lit_def br_def sublist_code)
  have 5: "map (\<lambda>skill. str_strip (unquote skill))
             (split_count (length (lit ''a'')) (lit ''a'') comma) = [lit ''a'']"
    by (simp add: lit_def comma_def unquote_def str_strip_def isspace_def)
  show ?thesis
    using only_first_marker_and_first_br[OF 1 2 3 4,
        where d = "\<lparr>rss = None, find_all_item = []\<rparr>" and before = "[]" and after = "[]"]
    by (auto simp: 5)
qed

text \<open>
  Claim C9. When the content of an item has the marker and no \<open><br />\<close> after it, the
  item is not skipped: everything after the marker is split at the commas, which gives at
  least one token, and the item gives these tokens, decoded and trimmed.
\<close>

theorem no_br_keeps_whole_remainder:
  assumes "find_all_item d = before @ [it] @ after"
    and "encoded it = Some (pre @ skills_marker @ rest)"
    and "\<not> sublist skills_marker pre"
    and "\<not> sublist br rest"
    and "get_skills (d\<lparr>find_all_item := before\<rparr>) = Inr r1"
    and "get_skills (d\<lparr>find_all_item := after\<rparr>) = Inr r2"
  shows "\<exists>toks. str_split rest comma (- 1) = Inr toks \<and> toks \<noteq> [] \<and>
           get_skills d = Inr (r1 @ map (\<lambda>skill. str_strip (unquote skill)) toks @ r2)"
proof -
  let ?toks = "split_count (length rest) rest comma"
  have "\<And>r. get_skills_item r it = Inr (r @ map (\<lambda>skill. str_strip (unquote skill)) ?toks)"
    by (rule item_marker_no_br[OF assms(2,3,4)])
  then have "get_skills d = Inr (r1 @ map (\<lambda>skill. str_strip (unquote skill)) ?toks @ r2)"
    by (rule get_skills_at[OF assms(1) _ assms(5,6)])
  then show ?thesis using str_split_comma[of rest] split_count_nonempty[of "length rest" rest comma]
    by blast
qed

text \<open>The statement of C9 at the content \<open>x Skills</b>: Go, Rust\<close>.\<close>

theorem no_br_keeps_whole_remainder_witness:
  "get_skills \<lparr>rss = None, find_all_item = [\<lparr>encoded = Some (lit ''x Skills</b>: Go, Rust'')\<rparr>]\<rparr>
     = Inr [lit ''Go'', lit ''Rust'']"
proof -
  let ?it = "\<lparr>encoded = Some (lit ''x Skills</b>: Go, Rust'')\<rparr>"
  let ?d = "\<lparr>rss = None, find_all_item = [?it]\<rparr>"
  have 1: "find_all_item ?d = [] @ [?it] @ []" by simp
  have 2: "encoded ?it = Some (lit ''x '' @ skills_marker @ lit '' Go, Rust'')"
    by (simp add: lit_def skills_marker_def)
  have 3: "\<not> sublist skills_marker (lit ''x '')"
    by (simp add: lit_def skills_marker_def sublist_code)
  have 4: "\<not> sublist br (lit '' Go, Rust'')" by (simp add: lit_def br_def sublist_code)
  have 5: "get_skills (?d\<lparr>find_all_item := []\<rparr>) = Inr []" by (simp add: get_skills_def)
  have 6: "str_split (lit '' Go, Rust'') comma (- 1) = Inr [lit '' Go'', lit '' Rust'']"
    by (simp add: str_split_def lit_def comma_def)
  have 7: "map (\<lambda>skill. str_strip (unquote skill)) [lit '' Go'', lit '' Rust''] =
             [lit ''Go'', lit ''Rust'']"
    by (simp add: lit_def unquote_def str_strip_def isspace_def)
  show ?thesis using no_br_keeps_whole_remainder[OF 1 2 3 4 5 5] 6 7 by auto
qed

text \<open>
  Claim C10. When the first marker of an item's content is immediately followed by
  \<open><br />\<close>, the item gives exactly one element, the empty string.
\<close>

theorem empty_segment_gives_one_empty_string:
  assumes "find_all_item d = before @ [it] @ after"
    and "encoded it = Some (pre @ skills_marker @ br @ post)"
    and "\<not> sublist skills_marker pre"
    and "get_skills (d\<lparr>find_all_item := before\<rparr>) = Inr r1"
    and "get_skills (d\<lparr>find_all_item := after\<rparr>) = Inr r2"
  shows "get_skills d = Inr (r1 @ [[]] @ r2)"
proof -
  have enc: "encoded it = Some (pre @ skills_marker @ [] @ br @ post)"
    using assms(2) by simp
  have "\<not> sublist br []" by (simp add: br_facts)
  then have "\<And>r. get_skills_item r it = Inr (r @ [[]])"
    using item_marker_br[OF enc assms(3)] by (simp add: comma_eq decode_trim_empty)
  then show ?thesis by (rule get_skills_at[OF assms(1) _ assms(4,5)])
qed

text \<open>The statement of C10 at the content \<open>Skills</b>:<br />x\<close>.\<close>

theorem empty_segment_gives_one_empty_string_witness:
  "get_skills \<lparr>rss = None, find_all_item = [\<lparr>encoded = Some (lit ''Skills</b>:<br />x'')\<rparr>]\<rparr>
     = Inr [[]]"
  using empty_segment_gives_one_empty_string[of
      "\<lparr>rss = None, find_all_item = [\<lparr>encoded = Some (lit ''Skills</b>:<br />x'')\<rparr>]\<rparr>"
      "[]" "\<lparr>encoded = Some (lit ''Skills</b>:<br />x'')\<rparr>" "[]" "[]" "lit ''x''" "[]" "[]"]
  by (simp add: get_skills_def skills_marker_def br_def lit_def)

section \<open>Skill extraction: failures\<close>

text \<open>
  Claim C2 says that the extract operation never raises, for every input document. An item
  without an \<open>encoded\<close> tag is read outside every \<open>try\<close>: for the feed whose first item
  has no such tag and whose second item has skills, \<open>get_skills\<close> raises
  \<open>AttributeError\<close> and the skills of the second item are lost.
\<close>

theorem extract_raises_counterexample:
  "get_skills \<lparr>rss = None,
     find_all_item = [\<lparr>encoded = None\<rparr>, \<lparr>encoded = Some (lit ''Skills</b>:Go<br />'')\<rparr>]\<rparr>
   = Inl AttributeError"
  by (simp add: get_skills_def get_skills_item_def get_text_def)

text \<open>
  Claim C2, amended. For every document in which each item has an \<open>encoded\<close> tag, the
  extract operation returns a list and does not raise; an item whose content has no
  \<open>Skills</b>:\<close> marker contributes nothing and leaves the skills of the other items as
  they are (the result is that of the document without this item); and when no item has
  the marker the result is the empty list. The other failures that the \<open>except\<close> clauses
  name (a value that is not a string) cannot occur, since \<open>get_text\<close> returns a string.
\<close>

theorem extract_total_when_encoded:
  assumes "\<forall>it \<in> set (find_all_item d). encoded it \<noteq> None"
  shows "(\<exists>res. get_skills d = Inr res) \<and>
         (\<forall>before it c after.
            find_all_item d = before @ [it] @ after \<and> encoded it = Some c \<and>
            \<not> sublist skills_marker c \<longrightarrow>
            get_skills d = get_skills (d\<lparr>find_all_item := before @ after\<rparr>)) \<and>
         ((\<forall>it \<in> set (find_all_item d). \<forall>c. encoded it = Some c \<longrightarrow> \<not> sublist skills_marker c)
            \<longrightarrow> get_skills d = Inr [])"
proof (intro conjI allI impI)
  show "\<exists>res. get_skills d = Inr res"
    unfolding get_skills_def by (rule get_skills_loop_total[OF assms])
next
  fix before it c after
  assume h: "find_all_item d = before @ [it] @ after \<and> encoded it = Some c \<and>
             \<not> sublist skills_marker c"
  then have "\<And>r. get_skills_item r it = Inr r" by (simp add: item_no_marker)
  with h show "get_skills d = get_skills (d\<lparr>find_all_item := before @ after\<rparr>)"
    by (intro get_skills_skip) simp_all
next
  assume h: "\<forall>it \<in> set (find_all_item d). \<forall>c. encoded it = Some c \<longrightarrow> \<not> sublist skills_marker c"
  have "\<forall>it \<in> set (find_all_item d). \<exists>c. encoded it = Some c \<and> \<not> sublist skills_marker c"
    using assms h by fastforce
  then show "get_skills d = Inr []"
    unfolding get_skills_def by (rule get_skills_loop_no_marker)
qed

text \<open>
  The amended C2 at \<open>fixture_feed\<close>, whose second item has no marker, and at the feed
  with that item alone.
\<close>

theorem extract_total_when_encoded_witness:
  "(\<exists>res. get_skills fixture_feed = Inr res) \<and>
   get_skills fixture_feed =
     get_skills (fixture_feed\<lparr>find_all_item := [\<lparr>encoded = Some (lit ''Skills</b>: Go<br />'')\<rparr>]\<rparr>) \<and>
   get_skills (fixture_feed\<lparr>find_all_item := [\<lparr>encoded = Some (lit ''none'')\<rparr>]\<rparr>) = Inr []"
proof -
  have a: "\<forall>it \<in> set (find_all_item fixture_feed). encoded it \<noteq> None"
    by (simp add: fixture_feed_def)
  let ?d = "fixture_feed\<lparr>find_all_item := [\<lparr>encoded = Some (lit ''none'')\<rparr>]\<rparr>"
  have b: "\<forall>it \<in> set (find_all_item ?d). encoded it \<noteq> None" by simp
  have nm: "\<not> sublist skills_marker (lit ''none'')"
    by (simp add: skills_marker_def lit_def sublist_code)
  have c: "\<forall>it \<in> set (find_all_item ?d). \<forall>c. encoded it = Some c \<longrightarrow> \<not> sublist skills_marker c"
    using nm by simp
  have s: "find_all_item fixture_feed =
             [\<lparr>encoded = Some (lit ''Skills</b>: Go<br />'')\<rparr>] @ [\<lparr>encoded = Some (lit ''none'')\<rparr>] @ [] \<and>
           encoded \<lparr>encoded = Some (lit ''none'')\<rparr> = Some (lit ''none'') \<and>
           \<not> sublist skills_marker (lit ''none'')"
    using nm by (simp add: fixture_feed_def)
  show ?thesis
    using extract_total_when_encoded[OF a] extract_total_when_encoded[OF b] c s
    by (metis append_Nil2)
qed

section \<open>The run\<close>

text \<open>
  Claim C3. When the feed request is answered with a status other than 200, the run
  returns \<open>False\<close> and leaves the world as it was: no upload was asked for and no
  object was stored.
\<close>

theorem non_200_returns_false_without_upload:
  assumes "requests_get e (RSS_URL e) = Inr response"
    and "status_code response \<noteq> 200"
  shows "lambda_handler e w = (Inr False, w)"
  using assms by (simp add: lambda_handler_def get_rss_def)

text \<open>The statement of C3 for an answer with status 404.\<close>

theorem non_200_returns_false_without_upload_witness:
  "lambda_handler (fixture_env 404 fixture_feed (Inr ())) fixture_world
     = (Inr False, \<lparr>s3_calls = [], s3_objects = []\<rparr>)"
  using non_200_returns_false_without_upload[of "fixture_env 404 fixture_feed (Inr ())"
      "\<lparr>status_code = 404, content = []\<rparr>" fixture_world]
  by (simp add: fixture_env_def fixture_world_def)




end
